theory Spec2Isabelle
  imports Main
begin

section \<open>JavaScript list primitives used by the plugins\<close>

text \<open>
  \<^verbatim>\<open>Array.prototype.indexOf\<close>: the index of the first element equal to the argument,
  or \<open>-1\<close> when there is none.
\<close>

fun indexOf :: "'a list \<Rightarrow> 'a \<Rightarrow> int" where
  "indexOf [] x = - 1"
| "indexOf (y # ys) x =
     (if y = x then 0
      else if indexOf ys x = - 1 then - 1
      else indexOf ys x + 1)"

text \<open>
  \<^verbatim>\<open>xs.splice(index, 1)\<close>: a negative index counts from the end of the array (clamped
  at the front), a large one is clamped at the length; one element is removed at the
  resulting position when there is one. In particular \<^verbatim>\<open>splice(-1, 1)\<close> removes the last
  element.
\<close>

definition splice1 :: "'a list \<Rightarrow> int \<Rightarrow> 'a list" where
  "splice1 xs index =
     (let len = int (length xs);
          start = (if index < 0 then max (len + index) 0 else min index len)
      in take (nat start) xs @ drop (nat start + 1) xs)"

section \<open>The notebook tracker: class ActiveNotebook (notebook/plugin.ts)\<close>

text \<open>
  A panel handle is an opaque value of type \<open>'p\<close>; \<^verbatim>\<open>null\<close> is \<open>None\<close>.
  \<^item> \<open>activeWidget\<close> is the field \<^verbatim>\<open>_activeWidget\<close>, \<open>widgets\<close> the field \<^verbatim>\<open>_widgets\<close>;
  \<^item> \<open>connected\<close> lists the panels whose \<^verbatim>\<open>disposed\<close> signal carries a handler of the
    tracker, one entry per \<^verbatim>\<open>connect\<close> call;
  \<^item> \<open>changed\<close> is the sequence of values emitted on \<^verbatim>\<open>activeNotebookChanged\<close>, oldest
    first.
\<close>

record 'p tracker =
  activeWidget :: "'p option"
  widgets :: "'p list"
  connected :: "'p list"
  changed :: "'p option list"

definition notebookTracker :: "'p tracker" where
  "notebookTracker = \<lparr>activeWidget = None, widgets = [], connected = [], changed = []\<rparr>"

text \<open>The getter \<^verbatim>\<open>get activeNotebook()\<close>.\<close>

definition get_activeNotebook :: "'p tracker \<Rightarrow> 'p option" where
  "get_activeNotebook s = activeWidget s"

text \<open>
  The setter \<^verbatim>\<open>set activeNotebook(widget)\<close>, in the order of its four branches: the
  identity guard, the tracked panel (assign and emit), the null guard, and the push of an
  unknown panel together with the connection of its disposal handler.
\<close>

definition set_activeNotebook :: "'p option \<Rightarrow> 'p tracker \<Rightarrow> 'p tracker" where
  "set_activeNotebook widget s =
     (if activeWidget s = widget then s
      else if indexOf (map Some (widgets s)) widget \<noteq> - 1
        then s\<lparr>activeWidget := widget, changed := changed s @ [widget]\<rparr>
      else case widget of
        None \<Rightarrow> s
      | Some w \<Rightarrow> s\<lparr>widgets := widgets s @ [w], connected := connected s @ [w]\<rparr>)"

text \<open>
  The closure connected to \<^verbatim>\<open>widget.disposed\<close>: remove the panel at its index, then, when
  it is the active one, assign \<^verbatim>\<open>null\<close> through the setter.
\<close>

definition disposed_handler :: "'p \<Rightarrow> 'p tracker \<Rightarrow> 'p tracker" where
  "disposed_handler w s =
     (let index = indexOf (widgets s) w;
          s1 = s\<lparr>widgets := splice1 (widgets s) index\<rparr>
      in if activeWidget s1 = Some w then set_activeNotebook None s1 else s1)"

text \<open>
  The panel is disposed: its \<^verbatim>\<open>disposed\<close> signal fires, so that every handler connected
  to it runs, in connection order; the host then clears the connections of the disposed
  panel (\<^verbatim>\<open>Widget.dispose\<close> emits the signal and clears the widget's signal data), so
  that they do not run again.
\<close>

definition disposed_emit :: "'p \<Rightarrow> 'p tracker \<Rightarrow> 'p tracker" where
  "disposed_emit w s =
     (let s1 = fold (\<lambda>c. disposed_handler c) (filter (\<lambda>c. c = w) (connected s)) s
      in s1\<lparr>connected := filter (\<lambda>c. c \<noteq> w) (connected s1)\<rparr>)"

text \<open>
  What the focus listener reads from the host at the time of a focus event: the flags
  \<^verbatim>\<open>widget.isAttached\<close> and \<^verbatim>\<open>widget.isVisible\<close> of each panel, and
  \<^verbatim>\<open>widget.node.contains(target)\<close> for a focus target of type \<open>'t\<close>.
\<close>

record ('p, 't) display =
  isAttached :: "'p \<Rightarrow> bool"
  isVisible :: "'p \<Rightarrow> bool"
  node_contains :: "'p \<Rightarrow> 't \<Rightarrow> bool"

text \<open>
  The listener installed by the constructor: the loop over \<^verbatim>\<open>this._widgets\<close>, which
  assigns the first hit through the setter and returns.
\<close>

fun focus_loop :: "('p, 't) display \<Rightarrow> 't \<Rightarrow> 'p list \<Rightarrow> 'p tracker \<Rightarrow> 'p tracker" where
  "focus_loop d target [] s = s"
| "focus_loop d target (widget # rest) s =
     (if isAttached d widget \<and> isVisible d widget then
        (if node_contains d widget target then set_activeNotebook (Some widget) s
         else focus_loop d target rest s)
      else focus_loop d target rest s)"

definition focus_listener :: "('p, 't) display \<Rightarrow> 't \<Rightarrow> 'p tracker \<Rightarrow> 'p tracker" where
  "focus_listener d target s = focus_loop d target (widgets s) s"

text \<open>
  \<^verbatim>\<open>TrackingNotebookWidgetFactory.createNew\<close> hands the panel it has built to the setter;
  this is the registration call of the tracker.
\<close>

definition createNew :: "'p \<Rightarrow> 'p tracker \<Rightarrow> 'p tracker" where
  "createNew widget s = set_activeNotebook (Some widget) s"

text \<open>
  The events the tracker reacts to, each handled to completion before the next one, and
  the run of the tracker over a sequence of them.
\<close>

datatype ('p, 't) event =
    CreateNew 'p
  | SetActive "'p option"
  | Focus "('p, 't) display" 't
  | Disposed 'p

fun step :: "('p, 't) event \<Rightarrow> 'p tracker \<Rightarrow> 'p tracker" where
  "step (CreateNew w) s = createNew w s"
| "step (SetActive widget) s = set_activeNotebook widget s"
| "step (Focus d target) s = focus_listener d target s"
| "step (Disposed w) s = disposed_emit w s"

definition handle_events :: "('p, 't) event list \<Rightarrow> 'p tracker \<Rightarrow> 'p tracker" where
  "handle_events evs s = fold step evs s"

text \<open>
  The panels that an event hands to the tracker for registration: the panel built by
  \<^verbatim>\<open>createNew\<close>, and the panel assigned through the setter when it is not \<^verbatim>\<open>null\<close>.
  \<open>is_disposal\<close> tells the disposal events from the others.
\<close>

fun registers :: "('p, 't) event \<Rightarrow> 'p list" where
  "registers (CreateNew w) = [w]"
| "registers (SetActive widget) = (case widget of None \<Rightarrow> [] | Some w \<Rightarrow> [w])"
| "registers (Focus d target) = []"
| "registers (Disposed w) = []"

fun is_disposal :: "('p, 't) event \<Rightarrow> bool" where
  "is_disposal (Disposed w) = True"
| "is_disposal ev = False"

text \<open>The three conditions of the listener on one panel.\<close>

definition hit :: "('p, 't) display \<Rightarrow> 't \<Rightarrow> 'p \<Rightarrow> bool" where
  "hit d target widget \<longleftrightarrow>
     isAttached d widget \<and> isVisible d widget \<and> node_contains d widget target"

section \<open>The console focus follower: activateConsole (console plugin)\<close>

text \<open>
  The namespace \<^verbatim>\<open>Private\<close> of the console plugin holds \<^verbatim>\<open>widgets\<close> and
  \<^verbatim>\<open>activeWidget\<close>; \<open>console_connected\<close> lists the consoles whose \<^verbatim>\<open>disposed\<close> signal
  carries the plugin's handler.
\<close>

record 'p console_private =
  console_widgets :: "'p list"
  console_activeWidget :: "'p option"
  console_connected :: "'p list"

definition console_Private :: "'p console_private" where
  "console_Private =
     \<lparr>console_widgets = [], console_activeWidget = None, console_connected = []\<rparr>"

text \<open>
  The continuation of \<^verbatim>\<open>manager.startNew\<close> in a \<^verbatim>\<open>console:create-*\<close> handler: the new
  panel is added to the main area and its disposal handler is connected. The panel is
  not pushed onto \<^verbatim>\<open>Private.widgets\<close>.
\<close>

definition console_created :: "'p \<Rightarrow> 'p console_private \<Rightarrow> 'p console_private" where
  "console_created console s = s\<lparr>console_connected := console_connected s @ [console]\<rparr>"

definition console_disposed_handler :: "'p \<Rightarrow> 'p console_private \<Rightarrow> 'p console_private" where
  "console_disposed_handler console s =
     (let index = indexOf (console_widgets s) console;
          s1 = s\<lparr>console_widgets := splice1 (console_widgets s) index\<rparr>
      in if console_activeWidget s1 = Some console
         then s1\<lparr>console_activeWidget := None\<rparr> else s1)"

definition console_disposed_emit :: "'p \<Rightarrow> 'p console_private \<Rightarrow> 'p console_private" where
  "console_disposed_emit w s =
     (let s1 = fold (\<lambda>c. console_disposed_handler c)
                 (filter (\<lambda>c. c = w) (console_connected s)) s
      in s1\<lparr>console_connected := filter (\<lambda>c. c \<noteq> w) (console_connected s1)\<rparr>)"

fun console_focus_loop ::
  "('p, 't) display \<Rightarrow> 't \<Rightarrow> 'p list \<Rightarrow> 'p console_private \<Rightarrow> 'p console_private" where
  "console_focus_loop d target [] s = s"
| "console_focus_loop d target (widget # rest) s =
     (if isAttached d widget \<and> isVisible d widget then
        (if node_contains d widget target then s\<lparr>console_activeWidget := Some widget\<rparr>
         else console_focus_loop d target rest s)
      else console_focus_loop d target rest s)"

definition console_focus_listener ::
  "('p, 't) display \<Rightarrow> 't \<Rightarrow> 'p console_private \<Rightarrow> 'p console_private" where
  "console_focus_listener d target s = console_focus_loop d target (console_widgets s) s"

datatype ('p, 't) console_event =
    ConsoleCreated 'p
  | ConsoleFocus "('p, 't) display" 't
  | ConsoleDisposed 'p

fun console_step :: "('p, 't) console_event \<Rightarrow> 'p console_private \<Rightarrow> 'p console_private" where
  "console_step (ConsoleCreated c) s = console_created c s"
| "console_step (ConsoleFocus d target) s = console_focus_listener d target s"
| "console_step (ConsoleDisposed c) s = console_disposed_emit c s"

definition console_run ::
  "('p, 't) console_event list \<Rightarrow> 'p console_private \<Rightarrow> 'p console_private" where
  "console_run evs s = fold console_step evs s"

section \<open>Command handlers\<close>

text \<open>
  The commands that \<^verbatim>\<open>activateNotebookHandler\<close> adds to \<^verbatim>\<open>app.commands\<close>, named by their
  keys in \<^verbatim>\<open>cmdIds\<close>, and the calls into the host libraries that their handlers make.
  A handler only reads the tracker; whatever it changes, it changes through these calls.
\<close>

datatype notebook_command =
    cmd_runAndAdvance | cmd_run | cmd_runAndInsert | cmd_restart | cmd_interrupt
  | cmd_toCode | cmd_toMarkdown | cmd_toRaw | cmd_cut | cmd_copy | cmd_paste
  | cmd_deleteCell | cmd_insertAbove | cmd_insertBelow | cmd_selectAbove | cmd_selectBelow
  | cmd_extendAbove | cmd_extendBelow | cmd_commandMode | cmd_editMode | cmd_undo | cmd_redo
  | cmd_switchKernel

datatype 'p host_call =
    NotebookActions_runAndAdvance 'p
  | NotebookActions_run 'p
  | NotebookActions_runAndInsert 'p
  | nbWidget_restart 'p
  | kernel_interrupt 'p
  | NotebookActions_changeCellType 'p string
  | NotebookActions_cut 'p
  | NotebookActions_copy 'p
  | NotebookActions_paste 'p
  | NotebookActions_deleteCells 'p
  | NotebookActions_insertAbove 'p
  | NotebookActions_insertBelow 'p
  | NotebookActions_selectAbove 'p
  | NotebookActions_selectBelow 'p
  | NotebookActions_extendSelectionAbove 'p
  | NotebookActions_extendSelectionBelow 'p
  | content_set_mode 'p string
  | cells_undo 'p
  | cells_redo 'p
  | selectKernel 'p

text \<open>
  The guard \<^verbatim>\<open>if (tracker.activeNotebook)\<close> and the body of a handler, given the panel
  the getter returns. \<open>has_kernel\<close> tells whether \<^verbatim>\<open>context.kernel\<close> of a panel is set.
\<close>

fun handler_body :: "('p \<Rightarrow> bool) \<Rightarrow> notebook_command \<Rightarrow> 'p \<Rightarrow> 'p host_call list" where
  "handler_body has_kernel cmd_runAndAdvance nbWidget = [NotebookActions_runAndAdvance nbWidget]"
| "handler_body has_kernel cmd_run nbWidget = [NotebookActions_run nbWidget]"
| "handler_body has_kernel cmd_runAndInsert nbWidget = [NotebookActions_runAndInsert nbWidget]"
| "handler_body has_kernel cmd_restart nbWidget = [nbWidget_restart nbWidget]"
| "handler_body has_kernel cmd_interrupt nbWidget =
     (if has_kernel nbWidget then [kernel_interrupt nbWidget] else [])"
| "handler_body has_kernel cmd_toCode nbWidget = [NotebookActions_changeCellType nbWidget ''code'']"
| "handler_body has_kernel cmd_toMarkdown nbWidget =
     [NotebookActions_changeCellType nbWidget ''markdown'']"
| "handler_body has_kernel cmd_toRaw nbWidget = [NotebookActions_changeCellType nbWidget ''raw'']"
| "handler_body has_kernel cmd_cut nbWidget = [NotebookActions_cut nbWidget]"
| "handler_body has_kernel cmd_copy nbWidget = [NotebookActions_copy nbWidget]"
| "handler_body has_kernel cmd_paste nbWidget = [NotebookActions_paste nbWidget]"
| "handler_body has_kernel cmd_deleteCell nbWidget = [NotebookActions_deleteCells nbWidget]"
| "handler_body has_kernel cmd_insertAbove nbWidget = [NotebookActions_insertAbove nbWidget]"
| "handler_body has_kernel cmd_insertBelow nbWidget = [NotebookActions_insertBelow nbWidget]"
| "handler_body has_kernel cmd_selectAbove nbWidget = [NotebookActions_selectAbove nbWidget]"
| "handler_body has_kernel cmd_selectBelow nbWidget = [NotebookActions_selectBelow nbWidget]"
| "handler_body has_kernel cmd_extendAbove nbWidget =
     [NotebookActions_extendSelectionAbove nbWidget]"
| "handler_body has_kernel cmd_extendBelow nbWidget =
     [NotebookActions_extendSelectionBelow nbWidget]"
| "handler_body has_kernel cmd_commandMode nbWidget = [content_set_mode nbWidget ''command'']"
| "handler_body has_kernel cmd_editMode nbWidget = [content_set_mode nbWidget ''edit'']"
| "handler_body has_kernel cmd_undo nbWidget =
     [content_set_mode nbWidget ''command'', cells_undo nbWidget]"
| "handler_body has_kernel cmd_redo nbWidget =
     [content_set_mode nbWidget ''command'', cells_redo nbWidget]"
| "handler_body has_kernel cmd_switchKernel nbWidget = [selectKernel nbWidget]"

definition handler ::
  "('p \<Rightarrow> bool) \<Rightarrow> notebook_command \<Rightarrow> 'p tracker \<Rightarrow> 'p host_call list" where
  "handler has_kernel cmd tracker =
     (case get_activeNotebook tracker of
        None \<Rightarrow> []
      | Some nbWidget \<Rightarrow> handler_body has_kernel cmd nbWidget)"

text \<open>The handlers of \<^verbatim>\<open>console:clear\<close> and \<^verbatim>\<open>console:execute\<close>.\<close>

datatype console_command = console_clear | console_execute

datatype 'p console_call = content_clear 'p | content_execute 'p

fun console_handler :: "console_command \<Rightarrow> 'p console_private \<Rightarrow> 'p console_call list" where
  "console_handler console_clear s =
     (case console_activeWidget s of None \<Rightarrow> [] | Some w \<Rightarrow> [content_clear w])"
| "console_handler console_execute s =
     (case console_activeWidget s of None \<Rightarrow> [] | Some w \<Rightarrow> [content_execute w])"

section \<open>Launch entries for the kernels\<close>

text \<open>
  \<^verbatim>\<open>specs.kernelspecs\<close> is an object keyed by kernel name; it is modelled as the list of
  pairs (kernel name, \<^verbatim>\<open>spec.display_name\<close>) in the order in which \<^verbatim>\<open>for ... in\<close>
  enumerates the keys.
\<close>

type_synonym kernelspecs = "(string \<times> string) list"

text \<open>
  A JavaScript object with string keys, as the list of its properties in creation
  order. \<open>obj_set\<close> is the assignment \<^verbatim>\<open>obj[k] = v\<close>: an existing property keeps its
  place and takes the new value, a new one is added at the end. \<open>obj_get\<close> is
  \<^verbatim>\<open>obj[k]\<close>, with \<open>None\<close> for \<^verbatim>\<open>undefined\<close>.
\<close>

fun obj_set :: "('k \<times> 'v) list \<Rightarrow> 'k \<Rightarrow> 'v \<Rightarrow> ('k \<times> 'v) list" where
  "obj_set [] k v = [(k, v)]"
| "obj_set ((k', v') # obj) k v =
     (if k' = k then (k', v) # obj else (k', v') # obj_set obj k v)"

fun obj_get :: "('k \<times> 'v) list \<Rightarrow> 'k \<Rightarrow> 'v option" where
  "obj_get [] k = None"
| "obj_get ((k', v') # obj) k = (if k' = k then Some v' else obj_get obj k)"

text \<open>
  \<^verbatim>\<open>Object.keys\<close>: the property names that are array indices come first, in ascending
  numeric order, then the other names in creation order. An array index is the decimal
  numeral, without sign or leading zero, of an integer from 0 to \<open>2\<^sup>3\<^sup>2 - 2\<close>.
\<close>

definition digit :: "char \<Rightarrow> bool" where
  "digit c \<longleftrightarrow> c \<in> set ''0123456789''"

definition index_value :: "string \<Rightarrow> nat" where
  "index_value s = foldl (\<lambda>n c. 10 * n + (of_char c - 48)) 0 s"

definition is_index :: "string \<Rightarrow> bool" where
  "is_index s \<longleftrightarrow>
     s \<noteq> [] \<and> list_all digit s \<and> (s = ''0'' \<or> hd s \<noteq> CHR ''0'') \<and>
     index_value s < 4294967295"

definition keys :: "(string \<times> 'v) list \<Rightarrow> string list" where
  "keys obj =
     sort_key index_value (filter is_index (map fst obj)) @
     filter (\<lambda>k. \<not> is_index k) (map fst obj)"

text \<open>
  \<^verbatim>\<open>Array.prototype.sort\<close> with a comparison function: an element goes before another
  one when the comparison of the two is not positive. The language leaves the algorithm
  to the engine; the model sorts by insertion.
\<close>

fun insert_sorted :: "('a \<Rightarrow> 'a \<Rightarrow> int) \<Rightarrow> 'a \<Rightarrow> 'a list \<Rightarrow> 'a list" where
  "insert_sorted cmp a [] = [a]"
| "insert_sorted cmp a (b # bs) =
     (if cmp a b \<le> 0 then a # b # bs else b # insert_sorted cmp a bs)"

definition sort_js :: "('a \<Rightarrow> 'a \<Rightarrow> int) \<Rightarrow> 'a list \<Rightarrow> 'a list" where
  "sort_js cmp xs = foldr (insert_sorted cmp) xs []"

text \<open>
  The loop that fills \<^verbatim>\<open>displayNameMap\<close>, and the sorted array \<^verbatim>\<open>displayNames\<close>.
  \<open>localeCompare\<close> is the comparison of the host, \<^verbatim>\<open>a.localeCompare(b)\<close>.
\<close>

definition displayNameMap :: "kernelspecs \<Rightarrow> (string \<times> string) list" where
  "displayNameMap specs =
     fold (\<lambda>(kernelName, displayName) obj. obj_set obj displayName kernelName) specs []"

definition displayNames :: "(string \<Rightarrow> string \<Rightarrow> int) \<Rightarrow> kernelspecs \<Rightarrow> string list" where
  "displayNames localeCompare specs = sort_js localeCompare (keys (displayNameMap specs))"

text \<open>The calls of \<^verbatim>\<open>registry.registerCreator\<close> made by the notebook plugin, in order.\<close>

record creator =
  name :: string
  extension :: string
  creator_type :: string
  kernelName :: "string option"

definition registerCreator_calls :: "(string \<Rightarrow> string \<Rightarrow> int) \<Rightarrow> kernelspecs \<Rightarrow> creator list" where
  "registerCreator_calls localeCompare specs =
     map (\<lambda>displayName.
            \<lparr>name = displayName @ '' Notebook'', extension = ''.ipynb'',
             creator_type = ''notebook'',
             kernelName = obj_get (displayNameMap specs) displayName\<rparr>)
         (displayNames localeCompare specs)"

text \<open>
  The console plugin: for each display name, the command added to \<^verbatim>\<open>app.commands\<close>
  (its id, and the kernel name its handler passes to \<^verbatim>\<open>manager.startNew\<close>) and the item
  added to \<^verbatim>\<open>app.palette\<close>. A template literal prints \<^verbatim>\<open>undefined\<close> as that word.
\<close>

definition template :: "string option \<Rightarrow> string" where
  "template v = (case v of None \<Rightarrow> ''undefined'' | Some s \<Rightarrow> s)"

record console_launcher =
  command_id :: string
  startNew_kernelName :: string
  palette_command :: string
  palette_category :: string
  palette_text :: string

definition console_launchers ::
  "(string \<Rightarrow> string \<Rightarrow> int) \<Rightarrow> kernelspecs \<Rightarrow> console_launcher list" where
  "console_launchers localeCompare specs =
     map (\<lambda>displayName.
            \<lparr>command_id = ''console:create-'' @ template (obj_get (displayNameMap specs) displayName),
             startNew_kernelName = template (obj_get (displayNameMap specs) displayName),
             palette_command =
               ''console:create-'' @ template (obj_get (displayNameMap specs) displayName),
             palette_category = ''Console'',
             palette_text = ''New '' @ displayName\<rparr>)
         (displayNames localeCompare specs)"

text \<open>The data-model invariant of the tracker: the active panel, when set, is tracked.\<close>

definition tracked_active :: "'p tracker \<Rightarrow> bool" where
  "tracked_active s = (case activeWidget s of None \<Rightarrow> True | Some a \<Rightarrow> a \<in> set (widgets s))"

section \<open>Sample inputs\<close>

text \<open>
  A display used to run the model on concrete events: every panel is attached and
  visible, a panel's node contains the focus target named like the panel, and the
  target \<open>''x''\<close> lies in the region of every panel (the overlap of all of them).
\<close>

definition overlapping :: "(string, string) display" where
  "overlapping =
     \<lparr>isAttached = (\<lambda>p. True), isVisible = (\<lambda>p. True),
      node_contains = (\<lambda>p target. target = ''x'' \<or> target = p)\<rparr>"

text \<open>
  Sample inputs for the commands and the launch entries: every panel has a kernel;
  strings are compared by length; two kernels share the display name \<open>''Python''\<close>.
\<close>

definition every_kernel :: "string \<Rightarrow> bool" where
  "every_kernel p = True"

definition by_length :: "string \<Rightarrow> string \<Rightarrow> int" where
  "by_length a b = int (length a) - int (length b)"

definition sample_specs :: kernelspecs where
  "sample_specs = [(''python2'', ''Python''), (''ir'', ''R''), (''python3'', ''Python'')]"

section \<open>Properties of the setter\<close>

lemma indexOf_ge: "- 1 \<le> indexOf xs x"
  by (induction xs) auto

lemma indexOf_mem: "indexOf xs x \<noteq> - 1 \<longleftrightarrow> x \<in> set xs"
proof (induction xs)
  case Nil
  show ?case by simp
next
  case (Cons y ys)
  have "- 1 \<le> indexOf ys x" by (rule indexOf_ge)
  then have "indexOf ys x + 1 \<noteq> - 1" by arith
  with Cons show ?case by auto
qed

lemma indexOf_Some: "indexOf (map Some ws) (Some w) \<noteq> - 1 \<longleftrightarrow> w \<in> set ws"
  by (auto simp: indexOf_mem)

lemma indexOf_None: "indexOf (map Some ws) None = - 1"
  using indexOf_mem [of "map Some ws" None] by auto

text \<open>The setter ignores \<^verbatim>\<open>null\<close> in every state.\<close>

lemma set_activeNotebook_None: "set_activeNotebook None s = s"
  by (simp add: set_activeNotebook_def indexOf_None)

lemma set_activeNotebook_tracked:
  "w \<in> set (widgets s) \<Longrightarrow> activeWidget s \<noteq> Some w \<Longrightarrow>
   set_activeNotebook (Some w) s = s\<lparr>activeWidget := Some w, changed := changed s @ [Some w]\<rparr>"
  using indexOf_Some [of "widgets s" w] by (simp add: set_activeNotebook_def)

lemma set_activeNotebook_untracked:
  "w \<notin> set (widgets s) \<Longrightarrow> activeWidget s \<noteq> Some w \<Longrightarrow>
   set_activeNotebook (Some w) s = s\<lparr>widgets := widgets s @ [w], connected := connected s @ [w]\<rparr>"
  using indexOf_Some [of "widgets s" w] by (simp add: set_activeNotebook_def)

text \<open>
  C1, as the claim states it, fails: in the initial state the setter, given the unknown
  panel \<open>''A''\<close>, leaves the active panel \<^verbatim>\<open>null\<close> and emits nothing.
\<close>

theorem set_activeNotebook_unknown_counterexample:
  "''A'' \<notin> set (widgets notebookTracker) \<and>
   activeWidget (set_activeNotebook (Some ''A'') notebookTracker) = None \<and>
   changed (set_activeNotebook (Some ''A'') notebookTracker) = []"
  by (simp add: set_activeNotebook_def notebookTracker_def)

text \<open>
  C1, amended: for a panel that is neither tracked nor the active one, the setter appends
  the panel to the tracked list and connects its disposal handler, leaves the active
  panel as it was and emits no notification. The next assignment of the same panel makes
  it the active one and emits exactly one notification, whose value is the panel.
\<close>

theorem set_activeNotebook_unknown:
  assumes "w \<notin> set (widgets s)" and "activeWidget s \<noteq> Some w"
  shows "widgets (set_activeNotebook (Some w) s) = widgets s @ [w] \<and>
         connected (set_activeNotebook (Some w) s) = connected s @ [w] \<and>
         activeWidget (set_activeNotebook (Some w) s) = activeWidget s \<and>
         changed (set_activeNotebook (Some w) s) = changed s \<and>
         widgets (set_activeNotebook (Some w) (set_activeNotebook (Some w) s)) = widgets s @ [w] \<and>
         activeWidget (set_activeNotebook (Some w) (set_activeNotebook (Some w) s)) = Some w \<and>
         changed (set_activeNotebook (Some w) (set_activeNotebook (Some w) s)) = changed s @ [Some w]"
proof -
  let ?s1 = "s\<lparr>widgets := widgets s @ [w], connected := connected s @ [w]\<rparr>"
  have first: "set_activeNotebook (Some w) s = ?s1"
    using assms by (rule set_activeNotebook_untracked)
  have "w \<in> set (widgets ?s1)" and "activeWidget ?s1 \<noteq> Some w"
    using assms by simp_all
  then have "set_activeNotebook (Some w) ?s1 =
      ?s1\<lparr>activeWidget := Some w, changed := changed ?s1 @ [Some w]\<rparr>"
    by (rule set_activeNotebook_tracked)
  with first show ?thesis by simp
qed

theorem set_activeNotebook_unknown_witness:
  "''B'' \<notin> set (widgets (createNew ''A'' notebookTracker)) \<and>
   activeWidget (createNew ''A'' notebookTracker) \<noteq> Some ''B'' \<and>
   widgets (set_activeNotebook (Some ''B'') (createNew ''A'' notebookTracker)) = [''A'', ''B''] \<and>
   activeWidget (set_activeNotebook (Some ''B'') (createNew ''A'' notebookTracker)) = None \<and>
   changed (set_activeNotebook (Some ''B'') (createNew ''A'' notebookTracker)) = [] \<and>
   activeWidget (set_activeNotebook (Some ''B'')
     (set_activeNotebook (Some ''B'') (createNew ''A'' notebookTracker))) = Some ''B'' \<and>
   changed (set_activeNotebook (Some ''B'')
     (set_activeNotebook (Some ''B'') (createNew ''A'' notebookTracker))) = [Some ''B'']"
proof -
  have s1: "createNew ''A'' notebookTracker =
      \<lparr>activeWidget = None, widgets = [''A''], connected = [''A''], changed = []\<rparr>"
    by (simp add: createNew_def set_activeNotebook_def notebookTracker_def)
  have a: "''B'' \<notin> set (widgets (createNew ''A'' notebookTracker))"
    and b: "activeWidget (createNew ''A'' notebookTracker) \<noteq> Some ''B''"
    by (simp_all add: s1)
  show ?thesis
    using set_activeNotebook_unknown [OF a b] a b by (simp add: s1)
qed

text \<open>
  The amended statement needs the panel not to be the active one: once a disposal has
  left a removed panel active, the identity guard returns before the panel is pushed.
\<close>

lemma set_activeNotebook_stale:
  "set_activeNotebook (Some ''A'')
     \<lparr>activeWidget = Some ''A'', widgets = [], connected = [], changed = [Some ''A'']\<rparr>
   = \<lparr>activeWidget = Some ''A'', widgets = [], connected = [], changed = [Some ''A'']\<rparr>"
  by (simp add: set_activeNotebook_def)

text \<open>
  C7: assigning the panel that is already the active one through the setter changes
  nothing: fields and the sequence of emitted notifications stay as they were.
\<close>

theorem set_activeNotebook_same:
  "set_activeNotebook (activeWidget s) s = s"
  by (simp add: set_activeNotebook_def)

section \<open>Disposal\<close>

text \<open>
  The handler assigns \<^verbatim>\<open>null\<close> through the setter, which ignores it: no disposal
  changes the active panel of the notebook tracker. The console handler assigns the
  field itself and clears it.
\<close>

lemma disposed_handler_active: "activeWidget (disposed_handler w s) = activeWidget s"
  by (simp add: disposed_handler_def Let_def set_activeNotebook_None)

lemma fold_disposed_handler_active:
  "activeWidget (fold (\<lambda>c. disposed_handler c) cs s) = activeWidget s"
  by (induction cs arbitrary: s) (simp_all add: disposed_handler_active)

lemma disposed_emit_active: "activeWidget (disposed_emit w s) = activeWidget s"
  by (simp add: disposed_emit_def Let_def fold_disposed_handler_active)

lemma console_disposed_handler_clears:
  "console_activeWidget (console_disposed_handler c s) \<noteq> Some c"
  by (simp add: console_disposed_handler_def Let_def)

text \<open>
  C2, evaluated on the notebook tracker: panel \<open>''A''\<close> is created and focused, so that
  it is tracked and active. When its disposal signal fires, the panel leaves the tracked
  list and stays the active panel.
\<close>

theorem disposed_emit_keeps_active:
  "handle_events [CreateNew ''A'', Focus overlapping ''A''] notebookTracker
     = \<lparr>activeWidget = Some ''A'', widgets = [''A''], connected = [''A''], changed = [Some ''A'']\<rparr> \<and>
   disposed_emit ''A'' (handle_events [CreateNew ''A'', Focus overlapping ''A''] notebookTracker)
     = \<lparr>activeWidget = Some ''A'', widgets = [], connected = [], changed = [Some ''A'']\<rparr>"
  by (simp add: handle_events_def createNew_def focus_listener_def disposed_emit_def disposed_handler_def
      splice1_def set_activeNotebook_def notebookTracker_def overlapping_def)

text \<open>
  C3, evaluated on the notebook tracker: after the events create \<open>''A''\<close>, focus in
  \<open>''A''\<close>, dispose \<open>''A''\<close> the active panel is \<open>''A''\<close> and the tracked list is empty.
\<close>

theorem handle_events_active_disposed:
  "activeWidget (handle_events [CreateNew ''A'', Focus overlapping ''A'', Disposed ''A''] notebookTracker)
     = Some ''A'' \<and>
   widgets (handle_events [CreateNew ''A'', Focus overlapping ''A'', Disposed ''A''] notebookTracker) = []"
  by (simp add: handle_events_def createNew_def focus_listener_def disposed_emit_def disposed_handler_def
      splice1_def set_activeNotebook_def notebookTracker_def overlapping_def)

text \<open>
  C4, evaluated on the notebook tracker: with \<open>''A''\<close> tracked and active, assigning
  \<^verbatim>\<open>null\<close> through the setter leaves \<open>''A''\<close> the active panel.
\<close>

theorem set_activeNotebook_null_ignored:
  "activeWidget (handle_events [CreateNew ''A'', Focus overlapping ''A''] notebookTracker) = Some ''A'' \<and>
   activeWidget (handle_events [CreateNew ''A'', Focus overlapping ''A'', SetActive None] notebookTracker)
     = Some ''A''"
  by (simp add: handle_events_def createNew_def focus_listener_def
      set_activeNotebook_def notebookTracker_def overlapping_def)

section \<open>Focus resolution\<close>

lemma focus_loop_find:
  "focus_loop d target ws s =
     (case find (hit d target) ws of None \<Rightarrow> s | Some w \<Rightarrow> set_activeNotebook (Some w) s)"
  by (induction ws) (simp_all add: hit_def)

lemma console_focus_loop_find:
  "console_focus_loop d target ws s =
     (case find (hit d target) ws of None \<Rightarrow> s | Some w \<Rightarrow> s\<lparr>console_activeWidget := Some w\<rparr>)"
  by (induction ws) (simp_all add: hit_def)

lemma activeWidget_set_tracked:
  "w \<in> set (widgets s) \<Longrightarrow> activeWidget (set_activeNotebook (Some w) s) = Some w"
  by (cases "activeWidget s = Some w")
     (simp_all add: set_activeNotebook_tracked, simp add: set_activeNotebook_def)

lemma find_Some_mem: "find P xs = Some x \<Longrightarrow> x \<in> set xs \<and> P x"
  by (induction xs) (auto split: if_splits)

lemma focus_listener_active:
  "activeWidget (focus_listener d target s) =
     (case find (hit d target) (widgets s) of None \<Rightarrow> activeWidget s | Some w \<Rightarrow> Some w)"
  by (auto simp: focus_listener_def focus_loop_find activeWidget_set_tracked
      split: option.splits dest: find_Some_mem)

lemma find_first:
  "\<not> list_ex P pre \<Longrightarrow> P a \<Longrightarrow> find P (pre @ a # post) = Some a"
  by (induction pre) auto

lemma find_in_prefix:
  "P a \<Longrightarrow> \<exists>x. find P (pre @ a # post) = Some x \<and> x \<in> set (pre @ [a])"
  by (induction pre) auto

text \<open>
  C5: the focus listener of the notebook tracker hands the first tracked panel, in list
  order, that is attached, visible and contains the target to the setter, and that panel
  is the active one afterwards, whatever later panels contain the target; with no such
  panel the state is untouched. The console follower assigns the first such console.
  In particular, when \<open>A\<close> stands before \<open>B\<close> in the (duplicate-free) list and both
  are hit, the active panel afterwards is not \<open>B\<close>, and it is \<open>A\<close> when no panel before
  \<open>A\<close> is hit.
\<close>

theorem focus_first_match:
  "focus_listener d target s =
     (case find (hit d target) (widgets s) of
        None \<Rightarrow> s | Some w \<Rightarrow> set_activeNotebook (Some w) s) \<and>
   activeWidget (focus_listener d target s) =
     (case find (hit d target) (widgets s) of
        None \<Rightarrow> activeWidget s | Some w \<Rightarrow> Some w) \<and>
   console_focus_listener d target c =
     (case find (hit d target) (console_widgets c) of
        None \<Rightarrow> c | Some w \<Rightarrow> c\<lparr>console_activeWidget := Some w\<rparr>) \<and>
   (widgets s = pre @ A # mid @ B # post \<and> distinct (widgets s) \<and>
    hit d target A \<and> hit d target B \<longrightarrow>
      activeWidget (focus_listener d target s) \<noteq> Some B \<and>
      (\<not> list_ex (hit d target) pre \<longrightarrow> activeWidget (focus_listener d target s) = Some A))"
proof -
  have c1: "focus_listener d target s =
     (case find (hit d target) (widgets s) of
        None \<Rightarrow> s | Some w \<Rightarrow> set_activeNotebook (Some w) s)"
    by (simp add: focus_listener_def focus_loop_find)
  have c2: "activeWidget (focus_listener d target s) =
     (case find (hit d target) (widgets s) of
        None \<Rightarrow> activeWidget s | Some w \<Rightarrow> Some w)"
    by (rule focus_listener_active)
  have c3: "console_focus_listener d target c =
     (case find (hit d target) (console_widgets c) of
        None \<Rightarrow> c | Some w \<Rightarrow> c\<lparr>console_activeWidget := Some w\<rparr>)"
    by (simp add: console_focus_listener_def console_focus_loop_find)
  have c4: "widgets s = pre @ A # mid @ B # post \<and> distinct (widgets s) \<and>
      hit d target A \<and> hit d target B \<longrightarrow>
        activeWidget (focus_listener d target s) \<noteq> Some B \<and>
        (\<not> list_ex (hit d target) pre \<longrightarrow> activeWidget (focus_listener d target s) = Some A)"
  proof (intro impI)
    assume H: "widgets s = pre @ A # mid @ B # post \<and> distinct (widgets s) \<and>
      hit d target A \<and> hit d target B"
    then have ws: "widgets s = pre @ A # mid @ B # post" and dist: "distinct (widgets s)"
      and A: "hit d target A"
      by blast+
    from find_in_prefix [of "hit d target" A pre "mid @ B # post", OF A]
    obtain x where x: "find (hit d target) (widgets s) = Some x" "x \<in> set (pre @ [A])"
      using ws by auto
    from dist ws have "B \<notin> set (pre @ [A])" by auto
    with x have "x \<noteq> B" by auto
    with x have notB: "activeWidget (focus_listener d target s) \<noteq> Some B"
      by (simp add: focus_listener_active)
    have isA: "activeWidget (focus_listener d target s) = Some A"
      if "\<not> list_ex (hit d target) pre"
      using that ws A by (simp add: focus_listener_active find_first)
    from notB isA
    show "activeWidget (focus_listener d target s) \<noteq> Some B \<and>
        (\<not> list_ex (hit d target) pre \<longrightarrow> activeWidget (focus_listener d target s) = Some A)"
      by blast
  qed
  from c1 c2 c3 c4 show ?thesis by blast
qed

theorem focus_first_match_witness:
  "widgets (createNew ''B'' (createNew ''A'' notebookTracker)) = [] @ ''A'' # [] @ ''B'' # [] \<and>
   distinct (widgets (createNew ''B'' (createNew ''A'' notebookTracker))) \<and>
   hit overlapping ''x'' ''A'' \<and> hit overlapping ''x'' ''B'' \<and>
   \<not> list_ex (hit overlapping ''x'') [] \<and>
   activeWidget (focus_listener overlapping ''x''
     (createNew ''B'' (createNew ''A'' notebookTracker))) = Some ''A'' \<and>
   activeWidget (focus_listener overlapping ''x''
     (createNew ''B'' (createNew ''A'' notebookTracker))) \<noteq> Some ''B''"
proof -
  have s: "createNew ''B'' (createNew ''A'' notebookTracker) =
      \<lparr>activeWidget = None, widgets = [''A'', ''B''], connected = [''A'', ''B''], changed = []\<rparr>"
    by (simp add: createNew_def set_activeNotebook_def notebookTracker_def)
  have h: "hit overlapping ''x'' ''A''" "hit overlapping ''x'' ''B''"
    by (simp_all add: hit_def overlapping_def)
  have pre: "widgets (createNew ''B'' (createNew ''A'' notebookTracker))
        = [] @ ''A'' # [] @ ''B'' # []"
    "distinct (widgets (createNew ''B'' (createNew ''A'' notebookTracker)))"
    "\<not> list_ex (hit overlapping ''x'') []"
    by (simp_all add: s)
  note imp = focus_first_match [where d = overlapping and target = "''x''"
        and s = "createNew ''B'' (createNew ''A'' notebookTracker)"
        and pre = "[]" and A = "''A''" and mid = "[]" and B = "''B''" and post = "[]",
        THEN conjunct2, THEN conjunct2, THEN conjunct2]
  have prem: "widgets (createNew ''B'' (createNew ''A'' notebookTracker))
        = [] @ ''A'' # [] @ ''B'' # [] \<and>
      distinct (widgets (createNew ''B'' (createNew ''A'' notebookTracker))) \<and>
      hit overlapping ''x'' ''A'' \<and> hit overlapping ''x'' ''B''"
    using pre(1,2) h by (intro conjI)
  note r = mp [OF imp prem]
  note r1 = conjunct1 [OF r] and r2 = mp [OF conjunct2 [OF r] pre(3)]
  from pre h r1 r2 show ?thesis by (intro conjI)
qed

text \<open>
  C6: when no tracked panel is attached, visible and contains the target, the focus
  listener leaves the whole tracker state as it was: the active panel is the one before,
  and no notification is emitted.
\<close>

theorem focus_no_match:
  assumes "\<forall>w \<in> set (widgets s). \<not> hit d target w"
  shows "focus_listener d target s = s"
proof -
  from assms have "find (hit d target) (widgets s) = None"
    by (simp add: find_None_iff)
  then show ?thesis by (simp add: focus_listener_def focus_loop_find)
qed

theorem focus_no_match_witness:
  "widgets (createNew ''A'' notebookTracker) = [''A''] \<and>
   \<not> hit overlapping ''B'' ''A'' \<and>
   focus_listener overlapping ''B'' (createNew ''A'' notebookTracker)
     = createNew ''A'' notebookTracker \<and>
   activeWidget (focus_listener overlapping ''B'' (createNew ''A'' notebookTracker)) = None \<and>
   changed (focus_listener overlapping ''B'' (createNew ''A'' notebookTracker)) = []"
proof -
  have s: "createNew ''A'' notebookTracker =
      \<lparr>activeWidget = None, widgets = [''A''], connected = [''A''], changed = []\<rparr>"
    by (simp add: createNew_def set_activeNotebook_def notebookTracker_def)
  have h: "\<forall>w \<in> set (widgets (createNew ''A'' notebookTracker)). \<not> hit overlapping ''B'' w"
    by (simp add: s hit_def overlapping_def)
  have nh: "\<not> hit overlapping ''B'' ''A''"
    by (simp add: hit_def overlapping_def)
  show ?thesis
    using focus_no_match [OF h] nh by (simp add: s)
qed

section \<open>Registration\<close>

lemma set_activeNotebook_widgets:
  assumes "tracked_active s"
  shows "widgets (set_activeNotebook a s) =
     (case a of None \<Rightarrow> widgets s
      | Some w \<Rightarrow> if w \<in> set (widgets s) then widgets s else widgets s @ [w])"
proof (cases a)
  case None
  then show ?thesis by (simp add: set_activeNotebook_None)
next
  case (Some w)
  show ?thesis
  proof (cases "activeWidget s = Some w")
    case True
    with assms have "w \<in> set (widgets s)" by (simp add: tracked_active_def)
    with True Some show ?thesis by (simp add: set_activeNotebook_def)
  next
    case False
    then show ?thesis
      using Some set_activeNotebook_tracked [of w s] set_activeNotebook_untracked [of w s]
      by (cases "w \<in> set (widgets s)") simp_all
  qed
qed

lemma set_activeNotebook_tracked_active:
  assumes "tracked_active s"
  shows "tracked_active (set_activeNotebook a s)"
proof (cases a)
  case None
  with assms show ?thesis by (simp add: set_activeNotebook_None)
next
  case (Some w)
  show ?thesis
  proof (cases "activeWidget s = Some w")
    case True
    with assms Some show ?thesis by (simp add: set_activeNotebook_def)
  next
    case False
    then show ?thesis
      using Some assms set_activeNotebook_tracked [of w s] set_activeNotebook_untracked [of w s]
      by (cases "w \<in> set (widgets s)") (auto simp: tracked_active_def split: option.splits)
  qed
qed

lemma registered_snoc:
  "rev (remdups (rev (xs @ [w]))) =
     (if w \<in> set xs then rev (remdups (rev xs)) else rev (remdups (rev xs)) @ [w])"
  by simp

lemma fold_set_activeNotebook:
  "widgets (fold set_activeNotebook args notebookTracker) = rev (remdups (rev [w. Some w \<leftarrow> args])) \<and>
   tracked_active (fold set_activeNotebook args notebookTracker)"
proof (induction args rule: rev_induct)
  case Nil
  show ?case by (simp add: notebookTracker_def tracked_active_def)
next
  case (snoc a args)
  let ?S = "fold set_activeNotebook args notebookTracker"
  from snoc have W: "widgets ?S = rev (remdups (rev [w. Some w \<leftarrow> args]))"
    and I: "tracked_active ?S" by simp_all
  have "widgets (set_activeNotebook a ?S) = rev (remdups (rev [w. Some w \<leftarrow> args @ [a]]))"
  proof (cases a)
    case None
    then show ?thesis by (simp add: set_activeNotebook_None W)
  next
    case (Some w)
    have "set (widgets ?S) = set [w. Some w \<leftarrow> args]" by (simp add: W)
    then show ?thesis
      using Some set_activeNotebook_widgets [OF I, of a] W by simp
  qed
  moreover have "tracked_active (set_activeNotebook a ?S)"
    using I by (rule set_activeNotebook_tracked_active)
  ultimately show ?case by simp
qed

text \<open>
  The setter and the focus listener keep the active panel of the notebook tracker among
  the tracked ones, and the focus listener leaves the tracked list as it is; only
  disposal breaks the former.
\<close>

lemma focus_listener_tracked_active:
  "tracked_active s \<Longrightarrow> tracked_active (focus_listener d target s)"
  by (simp add: focus_listener_def focus_loop_find set_activeNotebook_tracked_active
      split: option.splits)

lemma focus_listener_widgets:
  "tracked_active s \<Longrightarrow> widgets (focus_listener d target s) = widgets s"
  by (auto simp: focus_listener_def focus_loop_find set_activeNotebook_widgets
      split: option.splits dest: find_Some_mem)

lemma step_widgets:
  assumes "tracked_active s" and "\<not> is_disposal ev"
  shows "widgets (step ev s) = widgets s @ [w \<leftarrow> registers ev. w \<notin> set (widgets s)] \<and>
         tracked_active (step ev s)"
proof (cases ev)
  case (CreateNew w)
  with assms(1) show ?thesis
    by (simp add: createNew_def set_activeNotebook_widgets set_activeNotebook_tracked_active)
next
  case (SetActive a)
  with assms(1) show ?thesis
    by (simp add: set_activeNotebook_widgets set_activeNotebook_tracked_active
        split: option.splits)
next
  case (Focus d target)
  with assms(1) show ?thesis
    by (simp add: focus_listener_widgets focus_listener_tracked_active)
next
  case (Disposed w)
  with assms(2) show ?thesis by simp
qed

lemma registers_short: "registers ev = [] \<or> (\<exists>w. registers ev = [w])"
  by (cases ev) (auto split: option.splits)

lemma first_occurrences_snoc:
  assumes "r = [] \<or> (\<exists>w. r = [w])"
  shows "rev (remdups (rev (xs @ r))) =
         rev (remdups (rev xs)) @ [w \<leftarrow> r. w \<notin> set (rev (remdups (rev xs)))]"
  using assms by auto

lemma handle_events_widgets:
  "list_all (\<lambda>ev. \<not> is_disposal ev) evs \<Longrightarrow>
   widgets (handle_events evs notebookTracker) = rev (remdups (rev (concat (map registers evs)))) \<and>
   tracked_active (handle_events evs notebookTracker)"
proof (induction evs rule: rev_induct)
  case Nil
  show ?case by (simp add: handle_events_def notebookTracker_def tracked_active_def)
next
  case (snoc ev evs)
  let ?S = "handle_events evs notebookTracker"
  from snoc have W: "widgets ?S = rev (remdups (rev (concat (map registers evs))))"
    and I: "tracked_active ?S" and nd: "\<not> is_disposal ev"
    by simp_all
  have S: "handle_events (evs @ [ev]) notebookTracker = step ev ?S"
    by (simp add: handle_events_def)
  from step_widgets [OF I nd]
  have "widgets (step ev ?S) = widgets ?S @ [w \<leftarrow> registers ev. w \<notin> set (widgets ?S)]"
    and T: "tracked_active (step ev ?S)"
    by simp_all
  then have "widgets (step ev ?S) =
      rev (remdups (rev (concat (map registers evs) @ registers ev)))"
    using first_occurrences_snoc [OF registers_short, of "concat (map registers evs)" ev]
    by (simp only: W)
  with T show ?case by (simp add: S)
qed

lemma fold_createNew:
  "fold createNew ws s = fold set_activeNotebook (map Some ws) s"
  by (induction ws arbitrary: s) (simp_all add: createNew_def)

lemma Some_comprehension: "[w. Some w \<leftarrow> map Some ws] = ws"
  by (induction ws) simp_all

text \<open>
  C8: on a fresh tracker, after any sequence of registration calls the tracked list holds
  the registered panels, each once, in the order of their first registration. This holds
  for a sequence of calls of \<^verbatim>\<open>createNew\<close>, for a sequence of assignments through the
  setter (\<^verbatim>\<open>null\<close> registers nothing), and for any sequence of \<^verbatim>\<open>createNew\<close> calls,
  assignments and focus events, whatever their order.
\<close>

theorem widgets_registration_order:
  "widgets (fold createNew ws notebookTracker) = rev (remdups (rev ws)) \<and>
   distinct (widgets (fold createNew ws notebookTracker)) \<and>
   set (widgets (fold createNew ws notebookTracker)) = set ws \<and>
   widgets (fold set_activeNotebook args notebookTracker) = rev (remdups (rev [w. Some w \<leftarrow> args])) \<and>
   distinct (widgets (fold set_activeNotebook args notebookTracker)) \<and>
   set (widgets (fold set_activeNotebook args notebookTracker)) = {w. Some w \<in> set args} \<and>
   (list_all (\<lambda>ev. \<not> is_disposal ev) evs \<longrightarrow>
      widgets (handle_events evs notebookTracker) = rev (remdups (rev (concat (map registers evs)))) \<and>
      distinct (widgets (handle_events evs notebookTracker)))"
proof -
  have c1: "widgets (fold createNew ws notebookTracker) = rev (remdups (rev ws))"
    using fold_set_activeNotebook [of "map Some ws"]
    by (simp only: fold_createNew Some_comprehension)
  then have c2: "distinct (widgets (fold createNew ws notebookTracker))"
    and c3: "set (widgets (fold createNew ws notebookTracker)) = set ws"
    by simp_all
  have "set [w. Some w \<leftarrow> args] = {w. Some w \<in> set args}"
    by (auto split: option.splits)
  then have c4: "widgets (fold set_activeNotebook args notebookTracker) =
        rev (remdups (rev [w. Some w \<leftarrow> args])) \<and>
      distinct (widgets (fold set_activeNotebook args notebookTracker)) \<and>
      set (widgets (fold set_activeNotebook args notebookTracker)) = {w. Some w \<in> set args}"
    using fold_set_activeNotebook [of args] by simp
  have c5: "list_all (\<lambda>ev. \<not> is_disposal ev) evs \<longrightarrow>
      widgets (handle_events evs notebookTracker) = rev (remdups (rev (concat (map registers evs)))) \<and>
      distinct (widgets (handle_events evs notebookTracker))"
  proof
    assume "list_all (\<lambda>ev. \<not> is_disposal ev) evs"
    then have "widgets (handle_events evs notebookTracker) =
        rev (remdups (rev (concat (map registers evs))))"
      using handle_events_widgets [of evs] by blast
    then show "widgets (handle_events evs notebookTracker) =
        rev (remdups (rev (concat (map registers evs)))) \<and>
      distinct (widgets (handle_events evs notebookTracker))"
      by simp
  qed
  from c1 c2 c3 c4 c5 show ?thesis by blast
qed

theorem widgets_registration_order_witness:
  "list_all (\<lambda>ev. \<not> is_disposal ev)
     [CreateNew ''A'', CreateNew ''B'', Focus overlapping ''B'', SetActive (Some ''C''),
      CreateNew ''A'', SetActive None, SetActive (Some ''B'')] \<and>
   widgets (handle_events
     [CreateNew ''A'', CreateNew ''B'', Focus overlapping ''B'', SetActive (Some ''C''),
      CreateNew ''A'', SetActive None, SetActive (Some ''B'')] notebookTracker)
     = [''A'', ''B'', ''C''] \<and>
   widgets (fold createNew [''A'', ''B'', ''A''] notebookTracker) = [''A'', ''B'']"
proof -
  have nd: "list_all (\<lambda>ev. \<not> is_disposal ev)
     [CreateNew ''A'', CreateNew ''B'', Focus overlapping ''B'', SetActive (Some ''C''),
      CreateNew ''A'', SetActive None, SetActive (Some ''B'')]"
    by simp
  note t = widgets_registration_order [where ws = "[''A'', ''B'', ''A'']" and
      evs = "[CreateNew ''A'', CreateNew ''B'', Focus overlapping ''B'', SetActive (Some ''C''),
      CreateNew ''A'', SetActive None, SetActive (Some ''B'')]"]
  note t7 = t [THEN conjunct2, THEN conjunct2, THEN conjunct2, THEN conjunct2,
      THEN conjunct2, THEN conjunct2]
  have a: "widgets (handle_events
     [CreateNew ''A'', CreateNew ''B'', Focus overlapping ''B'', SetActive (Some ''C''),
      CreateNew ''A'', SetActive None, SetActive (Some ''B'')] notebookTracker)
     = [''A'', ''B'', ''C'']"
    using conjunct1 [OF mp [OF t7 nd]] by simp
  have b: "widgets (fold createNew [''A'', ''B'', ''A''] notebookTracker) = [''A'', ''B'']"
    using conjunct1 [OF t] by simp
  from nd a b show ?thesis by (intro conjI)
qed

section \<open>Commands without an active panel\<close>

text \<open>
  C9: when the getter of the tracker returns \<^verbatim>\<open>null\<close>, the handler of every notebook
  command makes no call into the host; when \<^verbatim>\<open>Private.activeWidget\<close> is \<^verbatim>\<open>null\<close>, the
  handlers of the two console commands make none either. The handlers never write the
  tracker, so nothing changes.
\<close>

theorem handler_no_active:
  "(get_activeNotebook tracker = None \<longrightarrow> handler has_kernel cmd tracker = []) \<and>
   (console_activeWidget s = None \<longrightarrow> console_handler ccmd s = [])"
  by (cases ccmd) (simp_all add: handler_def)

theorem handler_no_active_witness:
  "get_activeNotebook (notebookTracker :: string tracker) = None \<and>
   handler every_kernel cmd_run (notebookTracker :: string tracker) = [] \<and>
   console_activeWidget (console_Private :: string console_private) = None \<and>
   console_handler console_execute (console_Private :: string console_private) = []"
proof -
  have a: "get_activeNotebook (notebookTracker :: string tracker) = None"
    by (simp add: get_activeNotebook_def notebookTracker_def)
  have b: "console_activeWidget (console_Private :: string console_private) = None"
    by (simp add: console_Private_def)
  note t = handler_no_active [where tracker = "notebookTracker :: string tracker"
      and has_kernel = every_kernel and cmd = cmd_run
      and s = "console_Private :: string console_private" and ccmd = console_execute]
  from a b mp [OF conjunct1 [OF t] a] mp [OF conjunct2 [OF t] b]
  show ?thesis by blast
qed

text \<open>With an active panel the handler does call the host.\<close>

lemma handler_active_example:
  "handler every_kernel cmd_undo
     \<lparr>activeWidget = Some ''A'', widgets = [''A''], connected = [''A''], changed = [Some ''A'']\<rparr>
   = [content_set_mode ''A'' ''command'', cells_undo ''A'']"
  by (simp add: handler_def get_activeNotebook_def)

section \<open>Launch entries\<close>

text \<open>Array indices go first, by value; the other names keep their creation order.\<close>

lemma keys_example:
  "keys [(''b'', ''v1''), (''10'', ''v2''), (''2'', ''v3''), (''01'', ''v4'')]
     = [''2'', ''10'', ''b'', ''01'']"
  by (simp add: keys_def is_index_def digit_def index_value_def)

lemma set_keys: "set (keys obj) = fst ` set obj"
proof -
  have "set (filter is_index (map fst obj)) \<union> set (filter (\<lambda>k. \<not> is_index k) (map fst obj))
      = set (map fst obj)"
    by auto
  then show ?thesis by (simp add: keys_def)
qed

lemma distinct_keys: "distinct (map fst obj) \<Longrightarrow> distinct (keys obj)"
  by (simp add: keys_def) blast

lemma names_obj_set:
  "map fst (obj_set obj k v) =
     (if k \<in> set (map fst obj) then map fst obj else map fst obj @ [k])"
  by (induction obj k v rule: obj_set.induct) simp_all

lemma obj_get_obj_set: "obj_get (obj_set obj k v) k' = (if k' = k then Some v else obj_get obj k')"
  by (induction obj k v rule: obj_set.induct) auto

lemma obj_get_None: "obj_get obj k = None \<longleftrightarrow> k \<notin> set (map fst obj)"
  by (induction obj k rule: obj_get.induct) simp_all

lemma displayNameMap_snoc:
  "displayNameMap (specs @ [(kn, dn)]) = obj_set (displayNameMap specs) dn kn"
  by (simp add: displayNameMap_def)

lemma names_displayNameMap:
  "distinct (map fst (displayNameMap specs)) \<and>
   set (map fst (displayNameMap specs)) = snd ` set specs"
proof (induction specs rule: rev_induct)
  case Nil
  show ?case by (simp add: displayNameMap_def)
next
  case (snoc x specs)
  obtain k d where x: "x = (k, d)" by (cases x)
  from snoc show ?case
    by (auto simp: x displayNameMap_snoc names_obj_set)
qed

lemma keys_displayNameMap:
  "distinct (keys (displayNameMap specs)) \<and> set (keys (displayNameMap specs)) = snd ` set specs"
proof -
  have "distinct (keys (displayNameMap specs))"
    using names_displayNameMap [of specs] by (simp add: distinct_keys)
  moreover have "set (keys (displayNameMap specs)) = snd ` set specs"
    using names_displayNameMap [of specs] by (simp add: set_keys)
  ultimately show ?thesis by (intro conjI)
qed

lemma obj_get_displayNameMap:
  "obj_get (displayNameMap specs) d =
     (if d \<in> snd ` set specs then Some (last [k. (k, d') \<leftarrow> specs, d' = d]) else None)"
proof (induction specs rule: rev_induct)
  case Nil
  show ?case by (simp add: displayNameMap_def)
next
  case (snoc x specs)
  obtain k d0 where x: "x = (k, d0)" by (cases x)
  from snoc show ?case
    by (auto simp: x displayNameMap_snoc obj_get_obj_set)
qed

lemma set_insert_sorted: "set (insert_sorted cmp a xs) = insert a (set xs)"
  by (induction xs) auto

lemma distinct_insert_sorted: "distinct (insert_sorted cmp a xs) \<longleftrightarrow> a \<notin> set xs \<and> distinct xs"
  by (induction xs) (auto simp: set_insert_sorted)

lemma set_sort_js: "set (sort_js cmp xs) = set xs"
  by (induction xs) (simp_all add: sort_js_def set_insert_sorted)

lemma distinct_sort_js: "distinct (sort_js cmp xs) \<longleftrightarrow> distinct xs"
  by (induction xs) (simp_all add: sort_js_def distinct_insert_sorted set_sort_js [unfolded sort_js_def])

lemma sorted_insert_sorted:
  assumes total: "\<And>a b. cmp a b \<le> 0 \<or> cmp b a \<le> 0"
    and trans: "\<And>a b c. cmp a b \<le> 0 \<Longrightarrow> cmp b c \<le> 0 \<Longrightarrow> cmp a c \<le> 0"
  shows "sorted_wrt (\<lambda>a b. cmp a b \<le> 0) xs \<Longrightarrow>
         sorted_wrt (\<lambda>a b. cmp a b \<le> 0) (insert_sorted cmp a xs)"
proof (induction xs)
  case Nil
  show ?case by simp
next
  case (Cons b bs)
  show ?case
  proof (cases "cmp a b \<le> 0")
    case True
    with Cons.prems trans show ?thesis by auto
  next
    case False
    with total have "cmp b a \<le> 0" by blast
    with False Cons show ?thesis by (auto simp: set_insert_sorted)
  qed
qed

lemma sorted_sort_js:
  assumes total: "\<And>a b. cmp a b \<le> 0 \<or> cmp b a \<le> 0"
    and trans: "\<And>a b c. cmp a b \<le> 0 \<Longrightarrow> cmp b c \<le> 0 \<Longrightarrow> cmp a c \<le> 0"
  shows "sorted_wrt (\<lambda>a b. cmp a b \<le> 0) (sort_js cmp xs)"
proof (induction xs)
  case Nil
  show ?case by (simp add: sort_js_def)
next
  case (Cons x xs)
  then show ?case
    using sorted_insert_sorted [of cmp "sort_js cmp xs" x, OF total trans]
    by (simp add: sort_js_def)
qed


text \<open>
  C10: let the comparison of the host be total and transitive. Then the display names
  that the two plugins iterate are the display names of the kernelspecs, each once, in
  ascending order of the comparison; the notebook plugin registers one creator and the
  console plugin one command and one palette item for each of them, in that order; and
  the kernel name of an entry is the one enumerated last among the kernels with the
  entry's display name.
\<close>

theorem launch_entries:
  assumes total: "\<forall>a b. localeCompare a b \<le> 0 \<or> localeCompare b a \<le> 0"
    and trans: "\<forall>a b c. localeCompare a b \<le> 0 \<and> localeCompare b c \<le> 0 \<longrightarrow> localeCompare a c \<le> 0"
  shows "distinct (displayNames localeCompare specs) \<and>
     set (displayNames localeCompare specs) = snd ` set specs \<and>
     sorted_wrt (\<lambda>a b. localeCompare a b \<le> 0) (displayNames localeCompare specs) \<and>
     registerCreator_calls localeCompare specs =
       map (\<lambda>d. \<lparr>name = d @ '' Notebook'', extension = ''.ipynb'', creator_type = ''notebook'',
                 kernelName = Some (last [k. (k, d') \<leftarrow> specs, d' = d])\<rparr>)
           (displayNames localeCompare specs) \<and>
     console_launchers localeCompare specs =
       map (\<lambda>d. \<lparr>command_id = ''console:create-'' @ last [k. (k, d') \<leftarrow> specs, d' = d],
                 startNew_kernelName = last [k. (k, d') \<leftarrow> specs, d' = d],
                 palette_command = ''console:create-'' @ last [k. (k, d') \<leftarrow> specs, d' = d],
                 palette_category = ''Console'',
                 palette_text = ''New '' @ d\<rparr>)
           (displayNames localeCompare specs)"
proof -
  have dist: "distinct (displayNames localeCompare specs)"
    by (simp add: displayNames_def distinct_sort_js keys_displayNameMap)
  have names: "set (displayNames localeCompare specs) = snd ` set specs"
    by (simp add: displayNames_def set_sort_js keys_displayNameMap)
  have sorted: "sorted_wrt (\<lambda>a b. localeCompare a b \<le> 0) (displayNames localeCompare specs)"
  proof -
    from total have t1: "\<And>a b. localeCompare a b \<le> 0 \<or> localeCompare b a \<le> 0"
      by blast
    from trans have t2: "\<And>a b c. localeCompare a b \<le> 0 \<Longrightarrow> localeCompare b c \<le> 0 \<Longrightarrow>
        localeCompare a c \<le> 0"
      by blast
    show ?thesis
      unfolding displayNames_def using t1 t2 by (rule sorted_sort_js)
  qed
  have get: "obj_get (displayNameMap specs) d = Some (last [k. (k, d') \<leftarrow> specs, d' = d])"
    if "d \<in> set (displayNames localeCompare specs)" for d
    using that names by (simp add: obj_get_displayNameMap)
  have creators: "registerCreator_calls localeCompare specs =
       map (\<lambda>d. \<lparr>name = d @ '' Notebook'', extension = ''.ipynb'', creator_type = ''notebook'',
                 kernelName = Some (last [k. (k, d') \<leftarrow> specs, d' = d])\<rparr>)
           (displayNames localeCompare specs)"
    unfolding registerCreator_calls_def by (rule map_cong [OF refl]) (simp add: get)
  have consoles: "console_launchers localeCompare specs =
       map (\<lambda>d. \<lparr>command_id = ''console:create-'' @ last [k. (k, d') \<leftarrow> specs, d' = d],
                 startNew_kernelName = last [k. (k, d') \<leftarrow> specs, d' = d],
                 palette_command = ''console:create-'' @ last [k. (k, d') \<leftarrow> specs, d' = d],
                 palette_category = ''Console'',
                 palette_text = ''New '' @ d\<rparr>)
           (displayNames localeCompare specs)"
    unfolding console_launchers_def by (rule map_cong [OF refl]) (simp add: get template_def)
  from dist names sorted creators consoles show ?thesis by (intro conjI)
qed

theorem launch_entries_witness:
  "displayNames by_length sample_specs = [''R'', ''Python''] \<and>
   distinct (displayNames by_length sample_specs) \<and>
   map kernelName (registerCreator_calls by_length sample_specs) = [Some ''ir'', Some ''python3''] \<and>
   map name (registerCreator_calls by_length sample_specs) = [''R Notebook'', ''Python Notebook''] \<and>
   map command_id (console_launchers by_length sample_specs) =
     [''console:create-ir'', ''console:create-python3''] \<and>
   map palette_text (console_launchers by_length sample_specs) = [''New R'', ''New Python'']"
proof -
  have total: "\<forall>a b. by_length a b \<le> 0 \<or> by_length b a \<le> 0"
    by (simp add: by_length_def) arith
  have trans: "\<forall>a b c. by_length a b \<le> 0 \<and> by_length b c \<le> 0 \<longrightarrow> by_length a c \<le> 0"
    by (simp add: by_length_def)
  have ds: "displayNames by_length sample_specs = [''R'', ''Python'']"
    by (simp add: displayNames_def displayNameMap_def keys_def is_index_def digit_def
        sort_js_def sample_specs_def
        by_length_def)
  note t = launch_entries [of by_length sample_specs, OF total trans]
  have "distinct (displayNames by_length sample_specs)"
    using t by (rule conjunct1)
  moreover have "map kernelName (registerCreator_calls by_length sample_specs) = [Some ''ir'', Some ''python3'']"
    and "map name (registerCreator_calls by_length sample_specs) = [''R Notebook'', ''Python Notebook'']"
    and "map command_id (console_launchers by_length sample_specs) =
     [''console:create-ir'', ''console:create-python3'']"
    and "map palette_text (console_launchers by_length sample_specs) = [''New R'', ''New Python'']"
    using t [unfolded ds] by (simp_all add: sample_specs_def)
  ultimately show ?thesis using ds by (intro conjI)
qed

section \<open>The reach of the console plugin\<close>

text \<open>
  No event of the console plugin pushes a console onto \<^verbatim>\<open>Private.widgets\<close>: in every
  state the plugin reaches, the list is empty and no console is active.
\<close>

lemma console_disposed_handler_empty:
  "console_widgets s = [] \<Longrightarrow> console_activeWidget s = None \<Longrightarrow>
   console_disposed_handler c s = s"
  by (simp add: console_disposed_handler_def splice1_def)

lemma fold_console_disposed_handler_empty:
  "console_widgets s = [] \<Longrightarrow> console_activeWidget s = None \<Longrightarrow>
   fold (\<lambda>c. console_disposed_handler c) cs s = s"
  by (induction cs) (simp_all add: console_disposed_handler_empty)

lemma console_step_empty:
  assumes "console_widgets s = []" and "console_activeWidget s = None"
  shows "console_widgets (console_step ev s) = [] \<and> console_activeWidget (console_step ev s) = None"
proof (cases ev)
  case (ConsoleCreated c)
  with assms show ?thesis by (simp add: console_created_def)
next
  case (ConsoleFocus d target)
  with assms show ?thesis by (simp add: console_focus_listener_def)
next
  case (ConsoleDisposed c)
  with assms show ?thesis
    by (simp add: console_disposed_emit_def Let_def fold_console_disposed_handler_empty)
qed

lemma console_run_empty:
  "console_widgets (console_run evs console_Private) = [] \<and>
   console_activeWidget (console_run evs console_Private) = None"
proof (induction evs rule: rev_induct)
  case Nil
  show ?case by (simp add: console_run_def console_Private_def)
next
  case (snoc ev evs)
  then show ?case
    using console_step_empty [of "console_run evs console_Private" ev]
    by (simp add: console_run_def)
qed

end
